theory Spec2Isabelle
  imports Complex_Main "HOL-Library.Multiset"
begin

section \<open>Shapes, rectangles and binary32 values\<close>

text \<open>
  The rectangle-generation tool (\<^verbatim>\<open>examples/dest_generate_rects_viola_jones.cpp\<close>) works on
  Eigen matrices of \<^verbatim>\<open>float\<close>. A finite \<^verbatim>\<open>float\<close> is read as the rational number it denotes
  and the arithmetic on finite values is exact: rounding to 24 bits, overflow and the sign of
  zero are left out, and the coordinates of shapes and rectangles are finite. The decimal
  literals \<^verbatim>\<open>0.3f\<close>, \<^verbatim>\<open>1.25f\<close>, \<^verbatim>\<open>-0.01f\<close> and \<^verbatim>\<open>-0.05f\<close> stand for \<open>3/10\<close>, \<open>5/4\<close>, \<open>-1/100\<close> and
  \<open>-1/20\<close>. What a division gives when the divisor is zero is kept: the quotient of two
  finite values is an \<open>f32\<close>, which is a finite value, an infinity or NaN.

  The tests of the source compare such values. In binary32 a rounded difference has the sign
  of the exact difference, and for a shape of fewer than \<open>2^24\<close> landmarks the rounded
  quotients \<open>k / n\<close> compare with each other and with \<^verbatim>\<open>0.3f\<close> as the exact quotients compare
  with each other and with \<open>3/10\<close>; so the decisions of the model are those of the source. The
  coordinates of the exported rectangles are exact here and rounded in the source.

  A \<^verbatim>\<open>Shape\<close> is a \<^verbatim>\<open>Matrix<float, 2, Dynamic>\<close>, one column per landmark: a list of columns.
  A \<^verbatim>\<open>Rect\<close> is a \<^verbatim>\<open>Matrix<float, 2, 4>\<close>: its four columns. The rectangles the tool reads
  (the candidates of a detector, the bounds of a shape) have finite coefficients; the
  rectangles it stores are quotients by a scaling factor, whose coefficients are \<open>f32\<close>.
\<close>

type_synonym Vector2f = "rat \<times> rat"

type_synonym Shape = "Vector2f list"

record 'a Matrix2x4 =
  col0 :: "'a \<times> 'a"
  col1 :: "'a \<times> 'a"
  col2 :: "'a \<times> 'a"
  col3 :: "'a \<times> 'a"

type_synonym Rect = "rat Matrix2x4"

datatype f32 = Fin rat | PInf | NInf | NaN

type_synonym QuotRect = "f32 Matrix2x4"

text \<open>Division of two finite values, as IEEE 754 has it at a zero divisor.\<close>

definition fdiv :: "rat \<Rightarrow> rat \<Rightarrow> f32" where
  "fdiv a b =
     (if b = 0 then (if a = 0 then NaN else if 0 < a then PInf else NInf)
      else Fin (a / b))"

text \<open>The comparisons \<^verbatim>\<open>x > y\<close> and \<^verbatim>\<open>x < y\<close>: false as soon as one side is NaN.\<close>

fun fgt :: "f32 \<Rightarrow> f32 \<Rightarrow> bool" where
  "fgt NaN y = False"
| "fgt x NaN = False"
| "fgt (Fin a) (Fin b) = (b < a)"
| "fgt PInf PInf = False"
| "fgt PInf y = True"
| "fgt x PInf = False"
| "fgt NInf y = False"
| "fgt x NInf = True"

definition flt :: "f32 \<Rightarrow> f32 \<Rightarrow> bool" where
  "flt x y = fgt y x"

text \<open>Column-wise helpers: \<^verbatim>\<open>u - v\<close>, \<^verbatim>\<open>(v.array() >= 0.f).all()\<close>, \<^verbatim>\<open>(v.array() <= 0.f).all()\<close>.\<close>

definition vsub :: "Vector2f \<Rightarrow> Vector2f \<Rightarrow> Vector2f" where
  "vsub u v = (fst u - fst v, snd u - snd v)"

definition all_ge0 :: "Vector2f \<Rightarrow> bool" where
  "all_ge0 v = (0 \<le> fst v \<and> 0 \<le> snd v)"

definition all_le0 :: "Vector2f \<Rightarrow> bool" where
  "all_le0 v = (fst v \<le> 0 \<and> snd v \<le> 0)"

section \<open>ratioRectShapeOverlap\<close>

text \<open>
  The loop over the columns of \<open>s\<close>, with the counter \<^verbatim>\<open>numOverlap\<close> as accumulator. The
  counter is a C \<^verbatim>\<open>int\<close>; it is modelled unbounded, so that a shape is taken to have fewer than
  \<open>2^31\<close> landmarks.
\<close>

fun countOverlap :: "Vector2f \<Rightarrow> Vector2f \<Rightarrow> Shape \<Rightarrow> int \<Rightarrow> int" where
  "countOverlap minC maxC [] numOverlap = numOverlap"
| "countOverlap minC maxC (p # ps) numOverlap =
     (let a = vsub p minC; b = vsub p maxC
      in countOverlap minC maxC ps
           (if all_ge0 a \<and> all_le0 b then numOverlap + 1 else numOverlap))"

definition ratioRectShapeOverlap :: "Rect \<Rightarrow> Shape \<Rightarrow> f32" where
  "ratioRectShapeOverlap r s =
     (let minC = col0 r; maxC = col3 r;
          numOverlap = countOverlap minC maxC s 0
      in fdiv (of_int numOverlap) (of_nat (length s)))"

text \<open>
  For the statements below: the landmark \<open>p\<close> lies in the closed box spanned by the corners
  \<open>lo\<close> and \<open>hi\<close>, componentwise and with the boundary.
\<close>

definition covered :: "Vector2f \<Rightarrow> Vector2f \<Rightarrow> Vector2f \<Rightarrow> bool" where
  "covered lo hi p = (fst lo \<le> fst p \<and> snd lo \<le> snd p \<and> fst p \<le> fst hi \<and> snd p \<le> snd hi)"

section \<open>The rectangle-generation tool\<close>

text \<open>
  An \<^verbatim>\<open>Image\<close> is a row-major matrix of 8-bit intensities. The tool itself reads only its size;
  the intensities are what a detector sees.
\<close>

record Image =
  img_rows :: nat
  img_cols :: nat
  img_data :: "nat list"

text \<open>\<^verbatim>\<open>dest::core::InputData\<close>, of which the tool fills \<^verbatim>\<open>images\<close> and \<^verbatim>\<open>shapes\<close>.\<close>

record InputData =
  images :: "Image list"
  shapes :: "Shape list"

text \<open>
  \<^verbatim>\<open>FaceDetector::detectFaces(img, rects)\<close> wraps OpenCV's cascade classifier: a detector is
  taken as the function from an image to the rectangles it reports, in the order it reports
  them.
\<close>

type_synonym FaceDetector = "Image \<Rightarrow> Rect list"

text \<open>
  The command-line options the loop reads. \<^verbatim>\<open>matchCV\<close> is the negation of \<^verbatim>\<open>--no-match-opencv\<close>.
\<close>

record Opts =
  matchCV :: bool

text \<open>
  A vector read past its end is undefined behaviour in the source: it ends the model's run
  with an error.
\<close>

datatype error = IndexOutOfRange

definition elemAt :: "'a list \<Rightarrow> nat \<Rightarrow> error + 'a" where
  "elemAt xs i = (if i < length xs then Inr (xs ! i) else Inl IndexOutOfRange)"

text \<open>The constants of \<^verbatim>\<open>main\<close> that move a tight rectangle towards what OpenCV reports.\<close>

definition scaleToCV :: rat where
  "scaleToCV = 5 / 4"

definition txToCV :: rat where
  "txToCV = - (1 / 100)"

definition tyToCV :: rat where
  "tyToCV = - (1 / 20)"

text \<open>
  \<^verbatim>\<open>Eigen::AffineCompact2f\<close>: the upper two rows of a homogeneous 3 by 3 matrix.
\<close>

record AffineCompact2f =
  m00 :: rat
  m01 :: rat
  m02 :: rat
  m10 :: rat
  m11 :: rat
  m12 :: rat

text \<open>
  The product \<^verbatim>\<open>Eigen::Translation2f(tx, ty) * Eigen::Scaling(sc)\<close>: the transform that scales
  by \<open>sc\<close> and then translates by \<open>(tx, ty)\<close>.
\<close>

definition translationTimesScaling :: "rat \<Rightarrow> rat \<Rightarrow> rat \<Rightarrow> AffineCompact2f" where
  "translationTimesScaling tx ty sc =
     \<lparr>m00 = sc, m01 = 0, m02 = tx,
      m10 = 0, m11 = sc, m12 = ty\<rparr>"

text \<open>\<^verbatim>\<open>t * v.homogeneous()\<close> for one column, and \<^verbatim>\<open>t * r.colwise().homogeneous()\<close>.\<close>

definition affineApply :: "AffineCompact2f \<Rightarrow> Vector2f \<Rightarrow> Vector2f" where
  "affineApply t v =
     (m00 t * fst v + m01 t * snd v + m02 t * 1, m10 t * fst v + m11 t * snd v + m12 t * 1)"

definition affineColwise :: "AffineCompact2f \<Rightarrow> Rect \<Rightarrow> Rect" where
  "affineColwise t r =
     \<lparr>col0 = affineApply t (col0 r), col1 = affineApply t (col1 r),
      col2 = affineApply t (col2 r), col3 = affineApply t (col3 r)\<rparr>"

text \<open>
  \<^verbatim>\<open>r / scaling\<close>: every coefficient divided by the scalar. The source has no test of the
  scalar; with a zero scalar the coefficients are infinities or NaN.
\<close>

definition vdiv :: "Vector2f \<Rightarrow> rat \<Rightarrow> f32 \<times> f32" where
  "vdiv v c = (fdiv (fst v) c, fdiv (snd v) c)"

definition rectDiv :: "Rect \<Rightarrow> rat \<Rightarrow> QuotRect" where
  "rectDiv r c =
     \<lparr>col0 = vdiv (col0 r) c, col1 = vdiv (col1 r) c,
      col2 = vdiv (col2 r) c, col3 = vdiv (col3 r) c\<rparr>"

text \<open>
  The inner loop over the detectors: each detector's rectangles are appended to \<^verbatim>\<open>faces\<close>.
\<close>

fun detectAll :: "FaceDetector list \<Rightarrow> Image \<Rightarrow> Rect list \<Rightarrow> Rect list" where
  "detectAll [] img faces = faces"
| "detectAll (d # ds) img faces = detectAll ds img (faces @ d img)"

text \<open>
  The search for the best face, from candidate \<open>j\<close> on. \<^verbatim>\<open>bestId\<close> starts at the largest
  \<^verbatim>\<open>size_t\<close>, which no index of a vector reaches: it is \<open>None\<close> here.
\<close>

fun bestLoop :: "Rect list \<Rightarrow> Shape \<Rightarrow> nat \<Rightarrow> f32 \<times> nat option \<Rightarrow> f32 \<times> nat option" where
  "bestLoop [] s j best = best"
| "bestLoop (f # fs) s j (bestOverlap, bestId) =
     (let ov = ratioRectShapeOverlap f s
      in bestLoop fs s (Suc j)
           (if fgt ov bestOverlap then (ov, Some j) else (bestOverlap, bestId)))"

text \<open>
  The tight rectangle the tool falls back to. \<^verbatim>\<open>dest::core::shapeBounds\<close> is declared in
  \<^verbatim>\<open>dest/core/shape.h\<close>; it is a parameter of the model.
\<close>

definition fallbackRect :: "Opts \<Rightarrow> (Shape \<Rightarrow> Rect) \<Rightarrow> Image \<Rightarrow> Shape \<Rightarrow> Rect" where
  "fallbackRect opts shapeBounds img s =
     (let r = shapeBounds s
      in if matchCV opts
         then affineColwise
                (translationTimesScaling (txToCV * of_nat (img_cols img))
                   (tyToCV * of_nat (img_rows img)) scaleToCV) r
         else r)"

text \<open>
  The body of the loop over the images, once \<^verbatim>\<open>faces\<close> is known: the rectangle stored in
  \<^verbatim>\<open>rects[i]\<close>, and whether \<^verbatim>\<open>countDetectionSuccess\<close> was incremented. In the second branch
  \<^verbatim>\<open>bestId\<close> is an index, read by \<^verbatim>\<open>faces[bestId]\<close>.
\<close>

definition chooseRect ::
  "Opts \<Rightarrow> (Shape \<Rightarrow> Rect) \<Rightarrow> Image \<Rightarrow> Shape \<Rightarrow> rat \<Rightarrow> Rect list
     \<Rightarrow> error + (QuotRect \<times> bool)" where
  "chooseRect opts shapeBounds img s scaling faces =
     (case bestLoop faces s 0 (Fin 0, None) of
        (bestOverlap, bestId) \<Rightarrow>
          if bestId = None \<or> flt bestOverlap (Fin (3 / 10))
          then Inr (rectDiv (fallbackRect opts shapeBounds img s) scaling, False)
          else (case elemAt faces (the bestId) of
                  Inl e \<Rightarrow> Inl e
                | Inr f \<Rightarrow> Inr (rectDiv f scaling, True)))"

definition imageStep ::
  "Opts \<Rightarrow> (Shape \<Rightarrow> Rect) \<Rightarrow> FaceDetector list \<Rightarrow> InputData \<Rightarrow> rat list \<Rightarrow> nat
     \<Rightarrow> error + (QuotRect \<times> bool)" where
  "imageStep opts shapeBounds detectors inputs scalings i =
     (case elemAt (images inputs) i of
        Inl e \<Rightarrow> Inl e
      | Inr img \<Rightarrow>
          (case elemAt (shapes inputs) i of
             Inl e \<Rightarrow> Inl e
           | Inr s \<Rightarrow>
               (case elemAt scalings i of
                  Inl e \<Rightarrow> Inl e
                | Inr scaling \<Rightarrow>
                    chooseRect opts shapeBounds img s scaling (detectAll detectors img []))))"

text \<open>
  The loop \<^verbatim>\<open>for (size_t i = 0; i < rects.size(); ++i)\<close>, over the indices still to visit. The
  state is the vector \<^verbatim>\<open>rects\<close> and the counter \<^verbatim>\<open>countDetectionSuccess\<close>.
\<close>

fun mainLoop ::
  "Opts \<Rightarrow> (Shape \<Rightarrow> Rect) \<Rightarrow> FaceDetector list \<Rightarrow> InputData \<Rightarrow> rat list \<Rightarrow> nat list
     \<Rightarrow> QuotRect list \<times> nat \<Rightarrow> error + (QuotRect list \<times> nat)" where
  "mainLoop opts shapeBounds detectors inputs scalings [] st = Inr st"
| "mainLoop opts shapeBounds detectors inputs scalings (i # is) (rects, countDetectionSuccess) =
     (case imageStep opts shapeBounds detectors inputs scalings i of
        Inl e \<Rightarrow> Inl e
      | Inr (r, success) \<Rightarrow>
          mainLoop opts shapeBounds detectors inputs scalings is
            (rects[i := r],
             if success then countDetectionSuccess + 1 else countDetectionSuccess))"

text \<open>
  \<^verbatim>\<open>main\<close> after the database and the classifiers are loaded: the rectangles handed to
  \<^verbatim>\<open>exportRectangles\<close> and the number of images on which a detection was kept. Of the
  rectangles that \<^verbatim>\<open>importDatabase\<close> left in \<^verbatim>\<open>rects\<close> the loop reads only the number.
\<close>

definition generateRects ::
  "Opts \<Rightarrow> (Shape \<Rightarrow> Rect) \<Rightarrow> FaceDetector list \<Rightarrow> InputData \<Rightarrow> rat list \<Rightarrow> QuotRect list
     \<Rightarrow> error + (QuotRect list \<times> nat)" where
  "generateRects opts shapeBounds detectors inputs scalings rects =
     mainLoop opts shapeBounds detectors inputs scalings [0..<length rects] (rects, 0)"

text \<open>
  For the statements below: the share of the landmarks of \<open>s\<close> that lie in the closed box
  between column 0 and column 3 of \<open>r\<close>.
\<close>

definition coveredRatio :: "Rect \<Rightarrow> Shape \<Rightarrow> rat" where
  "coveredRatio r s =
     of_nat (length (filter (covered (col0 r) (col3 r)) s)) / of_nat (length s)"

section \<open>Training data: the declarations of \<^verbatim>\<open>TrainingData\<close>\<close>

text \<open>
  \<^verbatim>\<open>TrainingData::Sample\<close>: the index of an image and the shape estimate attached to it.
\<close>

record Sample =
  idx :: int
  estimate :: Shape

text \<open>
  The header declares the static functions of \<^verbatim>\<open>TrainingData\<close> with default arguments; their
  bodies are in another translation unit. A call site either gives the last argument or
  leaves it out, in which case the declared default is passed: the argument is an \<open>option\<close>
  and the body a parameter.
\<close>

definition argOrDefault :: "'a \<Rightarrow> 'a option \<Rightarrow> 'a" where
  "argOrDefault d a = (case a of None \<Rightarrow> d | Some v \<Rightarrow> v)"

text \<open>
  \<^verbatim>\<open>createTrainingSamplesKazemi(shapes, samples, rnd, numInitializationsPerImage = 20)\<close>
\<close>

definition call_createTrainingSamplesKazemi ::
  "(Shape list \<Rightarrow> Sample list \<Rightarrow> 'g \<Rightarrow> int \<Rightarrow> 'r)
     \<Rightarrow> Shape list \<Rightarrow> Sample list \<Rightarrow> 'g \<Rightarrow> int option \<Rightarrow> 'r" where
  "call_createTrainingSamplesKazemi body shps samples rnd numInitializationsPerImage =
     body shps samples rnd (argOrDefault 20 numInitializationsPerImage)"

text \<open>
  \<^verbatim>\<open>createTrainingSamplesThroughLinearCombinations(shapes, samples, rnd, numInitializationsPerImage = 20)\<close>
\<close>

definition call_createTrainingSamplesThroughLinearCombinations ::
  "(Shape list \<Rightarrow> Sample list \<Rightarrow> 'g \<Rightarrow> int \<Rightarrow> 'r)
     \<Rightarrow> Shape list \<Rightarrow> Sample list \<Rightarrow> 'g \<Rightarrow> int option \<Rightarrow> 'r" where
  "call_createTrainingSamplesThroughLinearCombinations body shps samples rnd
       numInitializationsPerImage =
     body shps samples rnd (argOrDefault 20 numInitializationsPerImage)"

text \<open>
  \<^verbatim>\<open>randomPartitionTrainingSamples(train, validate, rnd, validatePercent = 0.1f)\<close>
\<close>

definition call_randomPartitionTrainingSamples ::
  "(Sample list \<Rightarrow> Sample list \<Rightarrow> 'g \<Rightarrow> rat \<Rightarrow> 'r)
     \<Rightarrow> Sample list \<Rightarrow> Sample list \<Rightarrow> 'g \<Rightarrow> rat option \<Rightarrow> 'r" where
  "call_randomPartitionTrainingSamples body train validate rnd validatePercent =
     body train validate rnd (argOrDefault (1 / 10) validatePercent)"

section \<open>Training data: the bodies, after the specification\<close>

text \<open>
  The generator \<^verbatim>\<open>std::mt19937\<close> is a state of some type \<open>'g\<close> together with the function
  \<open>next\<close> that gives its next output and the state after it.
\<close>

type_synonym 'g generator = "'g \<Rightarrow> nat \<times> 'g"

datatype sampling_error = NoOtherShape

text \<open>
  Modelled from the spec: the draw inside \<^verbatim>\<open>createTrainingSamplesKazemi\<close>, whose body is not
  among the sources. The specification draws, for image \<open>i\<close>, one of the other ground-truth
  shapes, "excluding self": the next output of the generator selects one of the \<open>M - 1\<close>
  indices other than \<open>i\<close>. It is used with at least two shapes only.
\<close>

definition drawOther :: "'g generator \<Rightarrow> nat \<Rightarrow> nat \<Rightarrow> 'g \<Rightarrow> nat \<times> 'g" where
  "drawOther next M i g =
     (case next g of (r, g') \<Rightarrow> (let j = r mod (M - 1) in (if j < i then j else j + 1, g')))"

text \<open>
  Modelled from the spec: the \<open>k\<close> initial estimates of image \<open>i\<close> in
  \<^verbatim>\<open>createTrainingSamplesKazemi\<close>. Each is another ground-truth shape "mapped into the image's
  own normalized frame"; the specification does not give the map, which is the parameter
  \<open>toFrame\<close>.
\<close>

fun initializationsOf ::
  "'g generator \<Rightarrow> (nat \<Rightarrow> Shape \<Rightarrow> Shape) \<Rightarrow> Shape list \<Rightarrow> nat \<Rightarrow> nat \<Rightarrow> 'g
     \<Rightarrow> Sample list \<times> 'g" where
  "initializationsOf next toFrame shps i 0 g = ([], g)"
| "initializationsOf next toFrame shps i (Suc k) g =
     (case drawOther next (length shps) i g of
        (j, g') \<Rightarrow>
          (case initializationsOf next toFrame shps i k g' of
             (rest, g'') \<Rightarrow> (\<lparr>idx = int i, estimate = toFrame i (shps ! j)\<rparr> # rest, g'')))"

text \<open>
  Modelled from the spec: the loop of \<^verbatim>\<open>createTrainingSamplesKazemi\<close> over the ground-truth
  shapes, "for each ground-truth shape (image), draw \<^verbatim>\<open>numInitializationsPerImage\<close> other
  ground-truth shapes".
\<close>

fun samplesOfImages ::
  "'g generator \<Rightarrow> (nat \<Rightarrow> Shape \<Rightarrow> Shape) \<Rightarrow> Shape list \<Rightarrow> nat \<Rightarrow> nat list \<Rightarrow> 'g
     \<Rightarrow> Sample list \<times> 'g" where
  "samplesOfImages next toFrame shps k [] g = ([], g)"
| "samplesOfImages next toFrame shps k (i # is) g =
     (case initializationsOf next toFrame shps i k g of
        (mine, g') \<Rightarrow>
          (case samplesOfImages next toFrame shps k is g' of
             (rest, g'') \<Rightarrow> (mine @ rest, g'')))"

text \<open>
  Modelled from the spec: \<^verbatim>\<open>createTrainingSamplesKazemi\<close> (section 4.1), whose body is not
  among the sources. The samples replace the contents of \<^verbatim>\<open>samples\<close>. With a single shape
  there is no other shape to draw, of which the specification says nothing: the model stops
  with an error there. A negative \<^verbatim>\<open>numInitializationsPerImage\<close> draws nothing.
\<close>

definition createTrainingSamplesKazemi ::
  "'g generator \<Rightarrow> (nat \<Rightarrow> Shape \<Rightarrow> Shape) \<Rightarrow> Shape list \<Rightarrow> Sample list \<Rightarrow> 'g \<Rightarrow> int
     \<Rightarrow> sampling_error + (Sample list \<times> 'g)" where
  "createTrainingSamplesKazemi next toFrame shps samples rnd numInitializationsPerImage =
     (if length shps = 1 \<and> 0 < numInitializationsPerImage then Inl NoOtherShape
      else Inr (samplesOfImages next toFrame shps (nat numInitializationsPerImage)
                  [0..<length shps] rnd))"

text \<open>
  Modelled from the spec: the shuffle inside \<^verbatim>\<open>randomPartitionTrainingSamples\<close>. Each element
  is put at a position of the already shuffled rest that the generator selects.
\<close>

fun shuffled :: "'g generator \<Rightarrow> 'a list \<Rightarrow> 'g \<Rightarrow> 'a list \<times> 'g" where
  "shuffled next [] g = ([], g)"
| "shuffled next (x # xs) g =
     (case shuffled next xs g of
        (ys, g') \<Rightarrow>
          (case next g' of
             (r, g'') \<Rightarrow> (let k = r mod (length ys + 1) in (take k ys @ x # drop k ys, g''))))"

text \<open>
  Modelled from the spec: \<^verbatim>\<open>randomPartitionTrainingSamples\<close> (sections 4.1 and 8), whose body
  is not among the sources: it "shuffles and splits samples so that \<^verbatim>\<open>validatePercent\<close> are
  held out", with \<open>round (N * p)\<close> validation samples and the rest for training. The result is
  the new \<^verbatim>\<open>train\<close>, the new \<^verbatim>\<open>validate\<close> and the generator.
\<close>

definition randomPartitionTrainingSamples ::
  "'g generator \<Rightarrow> Sample list \<Rightarrow> Sample list \<Rightarrow> 'g \<Rightarrow> rat
     \<Rightarrow> Sample list \<times> Sample list \<times> 'g" where
  "randomPartitionTrainingSamples next train validate rnd validatePercent =
     (case shuffled next train rnd of
        (xs, rnd') \<Rightarrow>
          (let numValidate = nat (round (of_nat (length train) * validatePercent))
           in (drop numValidate xs, take numValidate xs, rnd')))"

section \<open>Example data\<close>

abbreviation exShape :: Shape where
  "exShape \<equiv> [(1, 1), (3, 3), (2, 5)]"

abbreviation exWide :: Rect where
  "exWide \<equiv> \<lparr>col0 = (0, 0), col1 = (4, 0), col2 = (0, 4), col3 = (4, 4)\<rparr>"

abbreviation exSmall :: Rect where
  "exSmall \<equiv> \<lparr>col0 = (0, 0), col1 = (1, 0), col2 = (0, 1), col3 = (1, 1)\<rparr>"

abbreviation exImage :: Image where
  "exImage \<equiv> \<lparr>img_rows = 100, img_cols = 200, img_data = []\<rparr>"

abbreviation exInputs :: InputData where
  "exInputs \<equiv> \<lparr>images = [exImage], shapes = [exShape]\<rparr>"

abbreviation exTwoInputs :: InputData where
  "exTwoInputs \<equiv> \<lparr>images = [exImage, exImage], shapes = [exShape, [(9, 9)]]\<rparr>"

abbreviation exImported :: QuotRect where
  "exImported \<equiv> \<lparr>col0 = (Fin 0, Fin 0), col1 = (Fin 1, Fin 0), col2 = (Fin 0, Fin 1), col3 = (Fin 1, Fin 1)\<rparr>"

text \<open>A function for the parameter \<open>shapeBounds\<close>: the corners of the tight box of a shape.\<close>

abbreviation exTightBounds :: "Shape \<Rightarrow> Rect" where
  "exTightBounds \<equiv> \<lambda>s.
     \<lparr>col0 = (fold min (map fst s) (fst (hd s)), fold min (map snd s) (snd (hd s))),
      col1 = (fold max (map fst s) (fst (hd s)), fold min (map snd s) (snd (hd s))),
      col2 = (fold min (map fst s) (fst (hd s)), fold max (map snd s) (snd (hd s))),
      col3 = (fold max (map fst s) (fst (hd s)), fold max (map snd s) (snd (hd s)))\<rparr>"

abbreviation exNext :: "nat generator" where
  "exNext \<equiv> \<lambda>g. (g, g + 3)"

section \<open>Properties of the overlap ratio\<close>

text \<open>The definitions that evaluate a run of the tool on concrete data.\<close>

lemmas eval_defs =
  generateRects_def imageStep_def elemAt_def chooseRect_def fallbackRect_def
  ratioRectShapeOverlap_def fdiv_def flt_def rectDiv_def vdiv_def vsub_def
  all_ge0_def all_le0_def affineColwise_def affineApply_def translationTimesScaling_def
  scaleToCV_def txToCV_def tyToCV_def Let_def

lemma countOverlap_filter:
  "countOverlap minC maxC s n = n + int (length (filter (covered minC maxC) s))"
  by (induction s arbitrary: n)
     (auto simp: Let_def vsub_def all_ge0_def all_le0_def covered_def)

lemma ratio_value:
  "s \<noteq> [] \<Longrightarrow>
     ratioRectShapeOverlap r s =
       Fin (of_nat (length (filter (covered (col0 r) (col3 r)) s)) / of_nat (length s))"
  by (simp add: ratioRectShapeOverlap_def Let_def countOverlap_filter fdiv_def)

lemma ratio_Nil: "ratioRectShapeOverlap r [] = NaN"
  by (simp add: ratioRectShapeOverlap_def fdiv_def)

lemma ratio_Fin: "s \<noteq> [] \<Longrightarrow> ratioRectShapeOverlap r s = Fin (coveredRatio r s)"
  by (simp add: ratio_value coveredRatio_def)

lemma coveredRatio_nonneg: "0 \<le> coveredRatio r s"
  by (simp add: coveredRatio_def)

text \<open>
  C1. For a shape with at least one landmark, the overlap ratio of a rectangle is the number
  of landmarks lying in the closed box between column 0 and column 3 of the rectangle
  (both boundaries included), divided by the number of landmarks; it lies between 0 and 1.
\<close>

theorem ratioRectShapeOverlap_counts:
  assumes "s \<noteq> []"
  shows "ratioRectShapeOverlap r s =
           Fin (of_nat (length (filter (covered (col0 r) (col3 r)) s)) / of_nat (length s))
         \<and> (0::rat) \<le> of_nat (length (filter (covered (col0 r) (col3 r)) s)) / of_nat (length s)
         \<and> (of_nat (length (filter (covered (col0 r) (col3 r)) s)) :: rat) / of_nat (length s) \<le> 1"
proof -
  let ?k = "length (filter (covered (col0 r) (col3 r)) s)"
  have pos: "0 < length s" using assms by simp
  have le: "?k \<le> length s" by (rule length_filter_le)
  have "(of_nat ?k :: rat) \<le> of_nat (length s)" using le by simp
  then have "(of_nat ?k :: rat) / of_nat (length s) \<le> 1"
    using pos by (simp add: divide_le_eq_1)
  moreover have "(0::rat) \<le> of_nat ?k / of_nat (length s)" by simp
  ultimately show ?thesis using ratio_value [OF assms, of r] by simp
qed

theorem ratioRectShapeOverlap_counts_witness:
  "[(1, 1), (5, 5), (2, 0)] \<noteq> ([] :: Shape)
   \<and> ratioRectShapeOverlap \<lparr>col0 = (0, 0), col1 = (2, 0), col2 = (0, 2), col3 = (2, 2)\<rparr>
        [(1, 1), (5, 5), (2, 0)] = Fin (2 / 3)"
  using ratioRectShapeOverlap_counts
    [of "[(1, 1), (5, 5), (2, 0)]" "\<lparr>col0 = (0, 0), col1 = (2, 0), col2 = (0, 2), col3 = (2, 2)\<rparr>"]
  by (simp add: covered_def)

section \<open>The search for the best face\<close>

lemma bestLoop_Nil_shape: "bestLoop fs [] j best = best"
  by (induction fs arbitrary: j best) (auto simp: ratio_Nil Let_def split: prod.splits)

lemma bestLoop_cases:
  assumes "s \<noteq> []"
  shows "(bestLoop fs s j (Fin b0, bid0) = (Fin b0, bid0) \<and> (\<forall>f\<in>set fs. coveredRatio f s \<le> b0))
       \<or> (\<exists>k<length fs. bestLoop fs s j (Fin b0, bid0) = (Fin (coveredRatio (fs ! k) s), Some (j + k))
             \<and> b0 < coveredRatio (fs ! k) s
             \<and> (\<forall>i<k. coveredRatio (fs ! i) s < coveredRatio (fs ! k) s)
             \<and> (\<forall>i<length fs. coveredRatio (fs ! i) s \<le> coveredRatio (fs ! k) s))"
proof (induction fs arbitrary: j b0 bid0)
  case Nil
  then show ?case by simp
next
  case (Cons f fs)
  let ?c = "coveredRatio f s"
  show ?case
  proof (cases "b0 < ?c")
    case True
    have step: "bestLoop (f # fs) s j (Fin b0, bid0) = bestLoop fs s (Suc j) (Fin ?c, Some j)"
      using True assms by (simp add: ratio_Fin)
    from Cons.IH [of "Suc j" ?c "Some j"] show ?thesis
    proof
      assume a: "bestLoop fs s (Suc j) (Fin ?c, Some j) = (Fin ?c, Some j) \<and> (\<forall>f\<in>set fs. coveredRatio f s \<le> ?c)"
      have "\<forall>i<length (f # fs). coveredRatio ((f # fs) ! i) s \<le> ?c"
        using a by (auto simp: nth_Cons')
      then show ?thesis using a step True
        by (intro disjI2 exI [of _ 0]) simp
    next
      assume "\<exists>k<length fs. bestLoop fs s (Suc j) (Fin ?c, Some j) = (Fin (coveredRatio (fs ! k) s), Some (Suc j + k))
             \<and> ?c < coveredRatio (fs ! k) s
             \<and> (\<forall>i<k. coveredRatio (fs ! i) s < coveredRatio (fs ! k) s)
             \<and> (\<forall>i<length fs. coveredRatio (fs ! i) s \<le> coveredRatio (fs ! k) s)"
      then obtain k where k: "k < length fs"
        "bestLoop fs s (Suc j) (Fin ?c, Some j) = (Fin (coveredRatio (fs ! k) s), Some (Suc j + k))"
        "?c < coveredRatio (fs ! k) s"
        "\<forall>i<k. coveredRatio (fs ! i) s < coveredRatio (fs ! k) s"
        "\<forall>i<length fs. coveredRatio (fs ! i) s \<le> coveredRatio (fs ! k) s"
        by blast
      have e: "\<forall>i<Suc k. coveredRatio ((f # fs) ! i) s < coveredRatio (fs ! k) s"
        using k(3,4) by (auto simp: nth_Cons' less_Suc_eq_0_disj)
      have a: "\<forall>i<length (f # fs). coveredRatio ((f # fs) ! i) s \<le> coveredRatio (fs ! k) s"
        using k(3,5) by (auto simp: nth_Cons' less_Suc_eq_0_disj)
      show ?thesis
        using step k(1,2,3) True e a
        by (intro disjI2 exI [of _ "Suc k"]) simp
    qed
  next
    case False
    have step: "bestLoop (f # fs) s j (Fin b0, bid0) = bestLoop fs s (Suc j) (Fin b0, bid0)"
      using False assms by (simp add: ratio_Fin)
    from Cons.IH [of "Suc j" b0 bid0] show ?thesis
    proof
      assume a: "bestLoop fs s (Suc j) (Fin b0, bid0) = (Fin b0, bid0) \<and> (\<forall>f\<in>set fs. coveredRatio f s \<le> b0)"
      then show ?thesis using step False by auto
    next
      assume "\<exists>k<length fs. bestLoop fs s (Suc j) (Fin b0, bid0) = (Fin (coveredRatio (fs ! k) s), Some (Suc j + k))
             \<and> b0 < coveredRatio (fs ! k) s
             \<and> (\<forall>i<k. coveredRatio (fs ! i) s < coveredRatio (fs ! k) s)
             \<and> (\<forall>i<length fs. coveredRatio (fs ! i) s \<le> coveredRatio (fs ! k) s)"
      then obtain k where k: "k < length fs"
        "bestLoop fs s (Suc j) (Fin b0, bid0) = (Fin (coveredRatio (fs ! k) s), Some (Suc j + k))"
        "b0 < coveredRatio (fs ! k) s"
        "\<forall>i<k. coveredRatio (fs ! i) s < coveredRatio (fs ! k) s"
        "\<forall>i<length fs. coveredRatio (fs ! i) s \<le> coveredRatio (fs ! k) s"
        by blast
      have c: "?c < coveredRatio (fs ! k) s" using False k(3) by simp
      have e: "\<forall>i<Suc k. coveredRatio ((f # fs) ! i) s < coveredRatio (fs ! k) s"
        using c k(4) by (auto simp: nth_Cons' less_Suc_eq_0_disj)
      have a: "\<forall>i<length (f # fs). coveredRatio ((f # fs) ! i) s \<le> coveredRatio (fs ! k) s"
        using c k(5) by (auto simp: nth_Cons' less_Suc_eq_0_disj)
      show ?thesis
        using step k(1,2,3) e a
        by (intro disjI2 exI [of _ "Suc k"]) simp
    qed
  qed
qed


lemma bestLoop_start:
  assumes "s \<noteq> []"
  shows "(bestLoop fs s 0 (Fin 0, None) = (Fin 0, None) \<and> (\<forall>i<length fs. coveredRatio (fs ! i) s = 0))
       \<or> (\<exists>k<length fs. bestLoop fs s 0 (Fin 0, None) = (Fin (coveredRatio (fs ! k) s), Some k)
             \<and> 0 < coveredRatio (fs ! k) s
             \<and> (\<forall>i<k. coveredRatio (fs ! i) s < coveredRatio (fs ! k) s)
             \<and> (\<forall>i<length fs. coveredRatio (fs ! i) s \<le> coveredRatio (fs ! k) s))"
proof -
  have z: "(\<forall>f\<in>set fs. coveredRatio f s \<le> 0) \<Longrightarrow> (\<forall>i<length fs. coveredRatio (fs ! i) s = 0)"
    using coveredRatio_nonneg [of _ s] by (auto simp: antisym)
  from bestLoop_cases [OF assms, of fs 0 0 None] z show ?thesis by auto
qed

section \<open>The loop over the images\<close>

lemma detectAll_concat: "detectAll ds img faces = faces @ concat (map (\<lambda>d. d img) ds)"
  by (induction ds arbitrary: faces) simp_all

text \<open>What \<open>chooseRect\<close> returns, by the overlap ratios of the candidates.\<close>

lemma chooseRect_empty_shape:
  "chooseRect opts sb img [] c faces = Inr (rectDiv (fallbackRect opts sb img []) c, False)"
  by (simp add: chooseRect_def bestLoop_Nil_shape)

lemma chooseRect_cases:
  assumes "s \<noteq> []"
  shows "(chooseRect opts sb img s c faces = Inr (rectDiv (fallbackRect opts sb img s) c, False)
          \<and> ((\<forall>i<length faces. coveredRatio (faces ! i) s = 0)
             \<or> (\<exists>k<length faces. (\<forall>i<length faces. coveredRatio (faces ! i) s \<le> coveredRatio (faces ! k) s)
                   \<and> coveredRatio (faces ! k) s < 3 / 10)))
       \<or> (\<exists>k<length faces. chooseRect opts sb img s c faces = Inr (rectDiv (faces ! k) c, True)
             \<and> bestLoop faces s 0 (Fin 0, None) = (Fin (coveredRatio (faces ! k) s), Some k)
             \<and> 3 / 10 \<le> coveredRatio (faces ! k) s
             \<and> (\<forall>i<k. coveredRatio (faces ! i) s < coveredRatio (faces ! k) s)
             \<and> (\<forall>i<length faces. coveredRatio (faces ! i) s \<le> coveredRatio (faces ! k) s))"
proof -
  from bestLoop_start [OF assms(1), of faces] show ?thesis
  proof
    assume a: "bestLoop faces s 0 (Fin 0, None) = (Fin 0, None)
               \<and> (\<forall>i<length faces. coveredRatio (faces ! i) s = 0)"
    then have "chooseRect opts sb img s c faces = Inr (rectDiv (fallbackRect opts sb img s) c, False)"
      by (simp add: chooseRect_def)
    then show ?thesis using a by blast
  next
    assume "\<exists>k<length faces. bestLoop faces s 0 (Fin 0, None) = (Fin (coveredRatio (faces ! k) s), Some k)
             \<and> 0 < coveredRatio (faces ! k) s
             \<and> (\<forall>i<k. coveredRatio (faces ! i) s < coveredRatio (faces ! k) s)
             \<and> (\<forall>i<length faces. coveredRatio (faces ! i) s \<le> coveredRatio (faces ! k) s)"
    then obtain k where k: "k < length faces"
      "bestLoop faces s 0 (Fin 0, None) = (Fin (coveredRatio (faces ! k) s), Some k)"
      "0 < coveredRatio (faces ! k) s"
      "\<forall>i<k. coveredRatio (faces ! i) s < coveredRatio (faces ! k) s"
      "\<forall>i<length faces. coveredRatio (faces ! i) s \<le> coveredRatio (faces ! k) s"
      by blast
    show ?thesis
    proof (cases "coveredRatio (faces ! k) s < 3 / 10")
      case True
      then have "chooseRect opts sb img s c faces = Inr (rectDiv (fallbackRect opts sb img s) c, False)"
        using k(2) by (simp add: chooseRect_def flt_def)
      then show ?thesis using k(1,5) True by blast
    next
      case False
      then have "chooseRect opts sb img s c faces = Inr (rectDiv (faces ! k) c, True)"
        using k(1,2) by (simp add: chooseRect_def flt_def elemAt_def)
      then show ?thesis using k False by (intro disjI2 exI [of _ k]) simp
    qed
  qed
qed

lemma chooseRect_total: "\<exists>r ok. chooseRect opts sb img s c faces = Inr (r, ok)"
proof (cases "s = []")
  case True
  then show ?thesis using chooseRect_empty_shape by blast
next
  case False
  from chooseRect_cases [OF False, of opts sb img c faces] show ?thesis by blast
qed

lemma imageStep_in_range:
  assumes "i < length (images inputs)" "i < length (shapes inputs)" "i < length scalings"
  shows "imageStep opts sb dets inputs scalings i =
           chooseRect opts sb (images inputs ! i) (shapes inputs ! i) (scalings ! i)
             (concat (map (\<lambda>d. d (images inputs ! i)) dets))"
  using assms by (simp add: imageStep_def elemAt_def detectAll_concat)

lemma mainLoop_steps:
  assumes "\<forall>i\<in>set is. i < length rects \<and> (\<exists>r ok. imageStep opts sb dets inputs scalings i = Inr (r, ok))"
    and "distinct is"
  shows "\<exists>rects' n. mainLoop opts sb dets inputs scalings is (rects, cnt) = Inr (rects', n)
           \<and> length rects' = length rects
           \<and> (\<forall>i\<in>set is. \<exists>ok. imageStep opts sb dets inputs scalings i = Inr (rects' ! i, ok))
           \<and> (\<forall>i. i \<notin> set is \<longrightarrow> rects' ! i = rects ! i)"
  using assms
proof (induction "is" arbitrary: rects cnt)
  case Nil
  then show ?case by simp
next
  case (Cons i "is")
  from Cons.prems obtain r ok where step: "imageStep opts sb dets inputs scalings i = Inr (r, ok)"
    and i: "i < length rects" by auto
  let ?rects = "rects[i := r]"
  let ?cnt = "if ok then cnt + 1 else cnt"
  have pre: "\<forall>k\<in>set is. k < length ?rects \<and> (\<exists>r ok. imageStep opts sb dets inputs scalings k = Inr (r, ok))"
    using Cons.prems by simp
  have d: "distinct is" and ni: "i \<notin> set is" using Cons.prems by simp_all
  from Cons.IH [OF pre d, of ?cnt] obtain rects' n where
    res: "mainLoop opts sb dets inputs scalings is (?rects, ?cnt) = Inr (rects', n)"
    and len: "length rects' = length ?rects"
    and each: "\<forall>k\<in>set is. \<exists>ok. imageStep opts sb dets inputs scalings k = Inr (rects' ! k, ok)"
    and rest: "\<forall>k. k \<notin> set is \<longrightarrow> rects' ! k = ?rects ! k"
    by blast
  have run: "mainLoop opts sb dets inputs scalings (i # is) (rects, cnt) = Inr (rects', n)"
    using step res by simp
  have at_i: "rects' ! i = r" using rest ni i by simp
  have "\<forall>k\<in>set (i # is). \<exists>ok. imageStep opts sb dets inputs scalings k = Inr (rects' ! k, ok)"
    using each at_i step by auto
  moreover have "\<forall>k. k \<notin> set (i # is) \<longrightarrow> rects' ! k = rects ! k"
    using rest by auto
  ultimately show ?case using run len by simp
qed

lemma generateRects_steps:
  assumes "length rects \<le> length (images inputs)" "length rects \<le> length (shapes inputs)"
    "length rects \<le> length scalings"
  shows "\<exists>rects' n. generateRects opts sb dets inputs scalings rects = Inr (rects', n)
           \<and> length rects' = length rects
           \<and> (\<forall>i<length rects. \<exists>ok.
                 imageStep opts sb dets inputs scalings i = Inr (rects' ! i, ok)
                 \<and> chooseRect opts sb (images inputs ! i) (shapes inputs ! i) (scalings ! i)
                      (concat (map (\<lambda>d. d (images inputs ! i)) dets)) = Inr (rects' ! i, ok))"
proof -
  have "\<forall>i\<in>set [0..<length rects]. i < length rects
          \<and> (\<exists>r ok. imageStep opts sb dets inputs scalings i = Inr (r, ok))"
  proof
    fix i assume "i \<in> set [0..<length rects]"
    then have i: "i < length rects" by simp
    from chooseRect_total imageStep_in_range [of i inputs scalings opts sb dets] i assms
    show "i < length rects \<and> (\<exists>r ok. imageStep opts sb dets inputs scalings i = Inr (r, ok))"
      by simp
  qed
  from mainLoop_steps [OF this, of 0] obtain rects' n where
    r: "mainLoop opts sb dets inputs scalings [0..<length rects] (rects, 0) = Inr (rects', n)"
    "length rects' = length rects"
    "\<forall>i\<in>set [0..<length rects]. \<exists>ok. imageStep opts sb dets inputs scalings i = Inr (rects' ! i, ok)"
    by auto
  have "\<forall>i<length rects. \<exists>ok.
          imageStep opts sb dets inputs scalings i = Inr (rects' ! i, ok)
          \<and> chooseRect opts sb (images inputs ! i) (shapes inputs ! i) (scalings ! i)
            (concat (map (\<lambda>d. d (images inputs ! i)) dets)) = Inr (rects' ! i, ok)"
  proof (intro allI impI)
    fix i assume i: "i < length rects"
    then have "i \<in> set [0..<length rects]" by simp
    with r(3) obtain ok where "imageStep opts sb dets inputs scalings i = Inr (rects' ! i, ok)"
      by blast
    then show "\<exists>ok. imageStep opts sb dets inputs scalings i = Inr (rects' ! i, ok)
            \<and> chooseRect opts sb (images inputs ! i) (shapes inputs ! i) (scalings ! i)
            (concat (map (\<lambda>d. d (images inputs ! i)) dets)) = Inr (rects' ! i, ok)"
      using imageStep_in_range [of i inputs scalings opts sb dets] i assms by auto
  qed
  then show ?thesis using r(1,2) by (auto simp: generateRects_def)
qed

lemma chooseRect_result:
  assumes "chooseRect opts sb img s c faces = Inr (r, ok)"
  shows "if ok then \<exists>f\<in>set faces. r = rectDiv f c
         else r = rectDiv (fallbackRect opts sb img s) c"
  using assms
  by (auto simp: chooseRect_def elemAt_def split: prod.splits if_splits sum.splits)

section \<open>The accept-or-fallback decision\<close>

lemma fallback_cond_fin:
  assumes "s \<noteq> []"
  shows "((\<forall>f\<in>set faces. \<not> fgt (ratioRectShapeOverlap f s) (Fin 0))
          \<or> (\<exists>b<length faces.
                (\<forall>j<length faces. \<not> fgt (ratioRectShapeOverlap (faces ! j) s)
                                        (ratioRectShapeOverlap (faces ! b) s))
                \<and> flt (ratioRectShapeOverlap (faces ! b) s) (Fin (3 / 10))))
       = ((\<forall>i<length faces. coveredRatio (faces ! i) s = 0)
          \<or> (\<exists>k<length faces. (\<forall>i<length faces. coveredRatio (faces ! i) s \<le> coveredRatio (faces ! k) s)
                \<and> coveredRatio (faces ! k) s < 3 / 10))"
proof -
  have a: "(\<forall>f\<in>set faces. \<not> fgt (ratioRectShapeOverlap f s) (Fin 0))
           = (\<forall>i<length faces. coveredRatio (faces ! i) s = 0)"
    using coveredRatio_nonneg [of _ s] assms
    by (auto simp: ratio_Fin all_set_conv_all_nth not_less antisym)
  show ?thesis
    unfolding a using assms by (simp add: ratio_Fin flt_def not_less)
qed

text \<open>
  C2. For every image index \<open>i\<close> the tool takes the fallback branch if and only if no
  candidate of any detector has an overlap ratio above 0, or a candidate of greatest overlap
  ratio has a ratio below 0.3. The branch taken is the flag of \<open>imageStep\<close>: \<open>True\<close> where
  \<^verbatim>\<open>countDetectionSuccess\<close> is incremented. On the fallback branch the exported rectangle has
  the corners of \<^verbatim>\<open>shapeBounds\<close> of the ground-truth shape, moved towards the detector's
  rectangles when \<^verbatim>\<open>matchCV\<close> is set, each coefficient divided by the scaling factor.
  Otherwise it has the corners of the first candidate of greatest overlap ratio, each
  coefficient divided by the scaling factor.
\<close>

theorem generateRects_fallback_iff:
  assumes "i < length rects"
    and "length rects \<le> length (images inputs)"
    and "length rects \<le> length (shapes inputs)"
    and "length rects \<le> length scalings"
    and "scalings ! i \<noteq> 0"
  shows "\<exists>rects' n. generateRects opts shapeBounds detectors inputs scalings rects = Inr (rects', n)
     \<and> (let img = images inputs ! i; s = shapes inputs ! i; c = scalings ! i;
             faces = concat (map (\<lambda>d. d img) detectors);
             fallback =
               ((\<forall>f\<in>set faces. \<not> fgt (ratioRectShapeOverlap f s) (Fin 0))
                \<or> (\<exists>b<length faces.
                      (\<forall>j<length faces. \<not> fgt (ratioRectShapeOverlap (faces ! j) s)
                                              (ratioRectShapeOverlap (faces ! b) s))
                      \<and> flt (ratioRectShapeOverlap (faces ! b) s) (Fin (3 / 10))));
             tight = shapeBounds s;
             toCV = (\<lambda>v. (5 / 4 * fst v + - (1 / 100) * of_nat (img_cols img),
                          5 / 4 * snd v + - (1 / 20) * of_nat (img_rows img)));
             quot = (\<lambda>v. (Fin (fst v / c), Fin (snd v / c)))
         in imageStep opts shapeBounds detectors inputs scalings i = Inr (rects' ! i, \<not> fallback)
            \<and> (if fallback
                then (if matchCV opts
                      then rects' ! i =
                             \<lparr>col0 = quot (toCV (col0 tight)), col1 = quot (toCV (col1 tight)),
                              col2 = quot (toCV (col2 tight)), col3 = quot (toCV (col3 tight))\<rparr>
                      else rects' ! i =
                             \<lparr>col0 = quot (col0 tight), col1 = quot (col1 tight),
                              col2 = quot (col2 tight), col3 = quot (col3 tight)\<rparr>)
                else \<exists>b<length faces.
                       (\<forall>j<length faces. \<not> fgt (ratioRectShapeOverlap (faces ! j) s)
                                               (ratioRectShapeOverlap (faces ! b) s))
                       \<and> (\<forall>j<b. fgt (ratioRectShapeOverlap (faces ! b) s)
                                      (ratioRectShapeOverlap (faces ! j) s))
                       \<and> rects' ! i =
                           \<lparr>col0 = quot (col0 (faces ! b)), col1 = quot (col1 (faces ! b)),
                            col2 = quot (col2 (faces ! b)), col3 = quot (col3 (faces ! b))\<rparr>))"
proof -
  let ?img = "images inputs ! i" and ?s = "shapes inputs ! i" and ?c = "scalings ! i"
  let ?faces = "concat (map (\<lambda>d. d ?img) detectors)"
  let ?fb = "(\<forall>f\<in>set ?faces. \<not> fgt (ratioRectShapeOverlap f ?s) (Fin 0))
                \<or> (\<exists>b<length ?faces.
                      (\<forall>j<length ?faces. \<not> fgt (ratioRectShapeOverlap (?faces ! j) ?s)
                                              (ratioRectShapeOverlap (?faces ! b) ?s))
                      \<and> flt (ratioRectShapeOverlap (?faces ! b) ?s) (Fin (3 / 10)))"
  let ?mx = "\<lambda>b. \<forall>j<length ?faces. \<not> fgt (ratioRectShapeOverlap (?faces ! j) ?s)
                                               (ratioRectShapeOverlap (?faces ! b) ?s)"
  let ?ear = "\<lambda>b. \<forall>j<b. fgt (ratioRectShapeOverlap (?faces ! b) ?s)
                              (ratioRectShapeOverlap (?faces ! j) ?s)"
  from generateRects_steps [OF assms(2-4), of opts shapeBounds detectors]
  obtain rects' n where run: "generateRects opts shapeBounds detectors inputs scalings rects = Inr (rects', n)"
    and each: "\<forall>i<length rects. \<exists>ok.
                 imageStep opts shapeBounds detectors inputs scalings i = Inr (rects' ! i, ok)
                 \<and> chooseRect opts shapeBounds (images inputs ! i) (shapes inputs ! i) (scalings ! i)
                      (concat (map (\<lambda>d. d (images inputs ! i)) detectors)) = Inr (rects' ! i, ok)"
    by blast
  from each assms(1) obtain ok where
    step: "imageStep opts shapeBounds detectors inputs scalings i = Inr (rects' ! i, ok)"
    and ch: "chooseRect opts shapeBounds ?img ?s ?c ?faces = Inr (rects' ! i, ok)"
    by blast
  have key: "(?fb \<and> \<not> ok \<and> rects' ! i = rectDiv (fallbackRect opts shapeBounds ?img ?s) ?c)
             \<or> (\<not> ?fb \<and> ok \<and> (\<exists>b<length ?faces. ?mx b \<and> ?ear b \<and> rects' ! i = rectDiv (?faces ! b) ?c))"
  proof (cases "?s = []")
    case True
    have fb: ?fb by (simp add: True ratio_Nil)
    from chooseRect_empty_shape [of opts shapeBounds ?img ?c ?faces] ch True
    have "rects' ! i = rectDiv (fallbackRect opts shapeBounds ?img ?s) ?c" "ok = False"
      by simp_all
    then show ?thesis using fb by blast
  next
    case False
    note eq = fallback_cond_fin [OF False, of ?faces]
    from chooseRect_cases [OF False, of opts shapeBounds ?img ?c ?faces] show ?thesis
    proof
      assume a: "chooseRect opts shapeBounds ?img ?s ?c ?faces
                   = Inr (rectDiv (fallbackRect opts shapeBounds ?img ?s) ?c, False)
          \<and> ((\<forall>i<length ?faces. coveredRatio (?faces ! i) ?s = 0)
             \<or> (\<exists>k<length ?faces. (\<forall>i<length ?faces. coveredRatio (?faces ! i) ?s \<le> coveredRatio (?faces ! k) ?s)
                   \<and> coveredRatio (?faces ! k) ?s < 3 / 10))"
      then have fb: ?fb using eq by blast
      from a ch have "rects' ! i = rectDiv (fallbackRect opts shapeBounds ?img ?s) ?c" "ok = False"
        by simp_all
      then show ?thesis using fb by blast
    next
      assume "\<exists>k<length ?faces. chooseRect opts shapeBounds ?img ?s ?c ?faces = Inr (rectDiv (?faces ! k) ?c, True)
             \<and> bestLoop ?faces ?s 0 (Fin 0, None) = (Fin (coveredRatio (?faces ! k) ?s), Some k)
             \<and> 3 / 10 \<le> coveredRatio (?faces ! k) ?s
             \<and> (\<forall>i<k. coveredRatio (?faces ! i) ?s < coveredRatio (?faces ! k) ?s)
             \<and> (\<forall>i<length ?faces. coveredRatio (?faces ! i) ?s \<le> coveredRatio (?faces ! k) ?s)"
      then obtain k where k: "k < length ?faces"
        "chooseRect opts shapeBounds ?img ?s ?c ?faces = Inr (rectDiv (?faces ! k) ?c, True)"
        "3 / 10 \<le> coveredRatio (?faces ! k) ?s"
        "\<forall>i<length ?faces. coveredRatio (?faces ! i) ?s \<le> coveredRatio (?faces ! k) ?s"
        "\<forall>i<k. coveredRatio (?faces ! i) ?s < coveredRatio (?faces ! k) ?s"
        by blast
      have n1: "\<not> (\<forall>i<length ?faces. coveredRatio (?faces ! i) ?s = 0)"
        using k(1,3) by force
      have n2: "\<not> (\<exists>b<length ?faces. (\<forall>i<length ?faces. coveredRatio (?faces ! i) ?s \<le> coveredRatio (?faces ! b) ?s)
                   \<and> coveredRatio (?faces ! b) ?s < 3 / 10)"
      proof
        assume "\<exists>b<length ?faces. (\<forall>i<length ?faces. coveredRatio (?faces ! i) ?s \<le> coveredRatio (?faces ! b) ?s)
                   \<and> coveredRatio (?faces ! b) ?s < 3 / 10"
        then obtain b where "coveredRatio (?faces ! k) ?s \<le> coveredRatio (?faces ! b) ?s"
          "coveredRatio (?faces ! b) ?s < 3 / 10" using k(1) by blast
        then show False using k(3) by simp
      qed
      have fb: "\<not> ?fb" using eq n1 n2 by blast
      have first: "?mx k" "?ear k"
        using k(4,5) False by (simp_all add: ratio_Fin not_less)
      from k(2) ch have "rects' ! i = rectDiv (?faces ! k) ?c" "ok = True" by simp_all
      then show ?thesis using fb k(1) first by blast
    qed
  qed
  have expl: "if ?fb
        then (if matchCV opts
              then rects' ! i =
                \<lparr>col0 = (Fin ((5 / 4 * fst (col0 (shapeBounds ?s)) + - (1 / 100) * of_nat (img_cols ?img)) / ?c),
                         Fin ((5 / 4 * snd (col0 (shapeBounds ?s)) + - (1 / 20) * of_nat (img_rows ?img)) / ?c)),
                 col1 = (Fin ((5 / 4 * fst (col1 (shapeBounds ?s)) + - (1 / 100) * of_nat (img_cols ?img)) / ?c),
                         Fin ((5 / 4 * snd (col1 (shapeBounds ?s)) + - (1 / 20) * of_nat (img_rows ?img)) / ?c)),
                 col2 = (Fin ((5 / 4 * fst (col2 (shapeBounds ?s)) + - (1 / 100) * of_nat (img_cols ?img)) / ?c),
                         Fin ((5 / 4 * snd (col2 (shapeBounds ?s)) + - (1 / 20) * of_nat (img_rows ?img)) / ?c)),
                 col3 = (Fin ((5 / 4 * fst (col3 (shapeBounds ?s)) + - (1 / 100) * of_nat (img_cols ?img)) / ?c),
                         Fin ((5 / 4 * snd (col3 (shapeBounds ?s)) + - (1 / 20) * of_nat (img_rows ?img)) / ?c))\<rparr>
              else rects' ! i =
                \<lparr>col0 = (Fin (fst (col0 (shapeBounds ?s)) / ?c), Fin (snd (col0 (shapeBounds ?s)) / ?c)),
                 col1 = (Fin (fst (col1 (shapeBounds ?s)) / ?c), Fin (snd (col1 (shapeBounds ?s)) / ?c)),
                 col2 = (Fin (fst (col2 (shapeBounds ?s)) / ?c), Fin (snd (col2 (shapeBounds ?s)) / ?c)),
                 col3 = (Fin (fst (col3 (shapeBounds ?s)) / ?c), Fin (snd (col3 (shapeBounds ?s)) / ?c))\<rparr>)
        else \<exists>b<length ?faces. ?mx b \<and> ?ear b
               \<and> rects' ! i =
                \<lparr>col0 = (Fin (fst (col0 (?faces ! b)) / ?c), Fin (snd (col0 (?faces ! b)) / ?c)),
                 col1 = (Fin (fst (col1 (?faces ! b)) / ?c), Fin (snd (col1 (?faces ! b)) / ?c)),
                 col2 = (Fin (fst (col2 (?faces ! b)) / ?c), Fin (snd (col2 (?faces ! b)) / ?c)),
                 col3 = (Fin (fst (col3 (?faces ! b)) / ?c), Fin (snd (col3 (?faces ! b)) / ?c))\<rparr>"
  using key
  proof (rule disjE)
    assume "?fb \<and> \<not> ok \<and> rects' ! i = rectDiv (fallbackRect opts shapeBounds ?img ?s) ?c"
    then have fb: ?fb and r: "rects' ! i = rectDiv (fallbackRect opts shapeBounds ?img ?s) ?c"
      by (rule conjunct1, rule conjunct2 [THEN conjunct2])
    have e: "if matchCV opts
              then rects' ! i =
                \<lparr>col0 = (Fin ((5 / 4 * fst (col0 (shapeBounds ?s)) + - (1 / 100) * of_nat (img_cols ?img)) / ?c),
                         Fin ((5 / 4 * snd (col0 (shapeBounds ?s)) + - (1 / 20) * of_nat (img_rows ?img)) / ?c)),
                 col1 = (Fin ((5 / 4 * fst (col1 (shapeBounds ?s)) + - (1 / 100) * of_nat (img_cols ?img)) / ?c),
                         Fin ((5 / 4 * snd (col1 (shapeBounds ?s)) + - (1 / 20) * of_nat (img_rows ?img)) / ?c)),
                 col2 = (Fin ((5 / 4 * fst (col2 (shapeBounds ?s)) + - (1 / 100) * of_nat (img_cols ?img)) / ?c),
                         Fin ((5 / 4 * snd (col2 (shapeBounds ?s)) + - (1 / 20) * of_nat (img_rows ?img)) / ?c)),
                 col3 = (Fin ((5 / 4 * fst (col3 (shapeBounds ?s)) + - (1 / 100) * of_nat (img_cols ?img)) / ?c),
                         Fin ((5 / 4 * snd (col3 (shapeBounds ?s)) + - (1 / 20) * of_nat (img_rows ?img)) / ?c))\<rparr>
              else rects' ! i =
                \<lparr>col0 = (Fin (fst (col0 (shapeBounds ?s)) / ?c), Fin (snd (col0 (shapeBounds ?s)) / ?c)),
                 col1 = (Fin (fst (col1 (shapeBounds ?s)) / ?c), Fin (snd (col1 (shapeBounds ?s)) / ?c)),
                 col2 = (Fin (fst (col2 (shapeBounds ?s)) / ?c), Fin (snd (col2 (shapeBounds ?s)) / ?c)),
                 col3 = (Fin (fst (col3 (shapeBounds ?s)) / ?c), Fin (snd (col3 (shapeBounds ?s)) / ?c))\<rparr>"
    proof (cases "matchCV opts")
      case True
      then show ?thesis using r assms(5) by (simp add: fallbackRect_def affineColwise_def affineApply_def translationTimesScaling_def
            scaleToCV_def txToCV_def tyToCV_def Let_def rectDiv_def vdiv_def fdiv_def)
    next
      case False
      then show ?thesis using r assms(5) by (simp add: fallbackRect_def affineColwise_def affineApply_def translationTimesScaling_def
            scaleToCV_def txToCV_def tyToCV_def Let_def rectDiv_def vdiv_def fdiv_def)
    qed
    show ?thesis
      using e by (simp only: fb [THEN eqTrueI] if_True)
  next
    assume "\<not> ?fb \<and> ok \<and> (\<exists>b<length ?faces. ?mx b \<and> ?ear b \<and> rects' ! i = rectDiv (?faces ! b) ?c)"
    then have fb: "\<not> ?fb"
      and ex: "\<exists>b<length ?faces. ?mx b \<and> ?ear b \<and> rects' ! i = rectDiv (?faces ! b) ?c"
      by (rule conjunct1, rule conjunct2 [THEN conjunct2])
    from ex obtain b where b: "b < length ?faces" "?mx b" "?ear b" "rects' ! i = rectDiv (?faces ! b) ?c"
      by blast
    have "rects' ! i =
                \<lparr>col0 = (Fin (fst (col0 (?faces ! b)) / ?c), Fin (snd (col0 (?faces ! b)) / ?c)),
                 col1 = (Fin (fst (col1 (?faces ! b)) / ?c), Fin (snd (col1 (?faces ! b)) / ?c)),
                 col2 = (Fin (fst (col2 (?faces ! b)) / ?c), Fin (snd (col2 (?faces ! b)) / ?c)),
                 col3 = (Fin (fst (col3 (?faces ! b)) / ?c), Fin (snd (col3 (?faces ! b)) / ?c))\<rparr>"
      using b(4) assms(5) by (simp add: rectDiv_def vdiv_def fdiv_def)
    with b(1,2,3) have "\<exists>b<length ?faces. ?mx b \<and> ?ear b
               \<and> rects' ! i =
                \<lparr>col0 = (Fin (fst (col0 (?faces ! b)) / ?c), Fin (snd (col0 (?faces ! b)) / ?c)),
                 col1 = (Fin (fst (col1 (?faces ! b)) / ?c), Fin (snd (col1 (?faces ! b)) / ?c)),
                 col2 = (Fin (fst (col2 (?faces ! b)) / ?c), Fin (snd (col2 (?faces ! b)) / ?c)),
                 col3 = (Fin (fst (col3 (?faces ! b)) / ?c), Fin (snd (col3 (?faces ! b)) / ?c))\<rparr>"
      by blast
    then show ?thesis by (simp only: fb [THEN Eq_FalseI] if_False)
  qed
  have okfb: "ok = (\<not> ?fb)"
    using key by argo
  have flag: "imageStep opts shapeBounds detectors inputs scalings i = Inr (rects' ! i, \<not> ?fb)"
    using step by (simp only: okfb)
  show ?thesis
    apply (rule exI [of _ rects'], rule exI [of _ n])
    unfolding Let_def fst_conv snd_conv
    apply (insert run flag expl)
    apply (intro conjI; assumption)
    done
qed


theorem generateRects_fallback_iff_witness:
  "(0::nat) < length [exImported, exImported] \<and> (1::nat) < length [exImported, exImported]
   \<and> length [exImported, exImported] \<le> length (images exTwoInputs)
   \<and> length [exImported, exImported] \<le> length (shapes exTwoInputs)
   \<and> length [exImported, exImported] \<le> length [1 / 2 :: rat, 1 / 4]
   \<and> [1 / 2 :: rat, 1 / 4] ! 0 \<noteq> 0 \<and> [1 / 2 :: rat, 1 / 4] ! 1 \<noteq> 0
   \<and> generateRects \<lparr>matchCV = True\<rparr> exTightBounds [\<lambda>img. [exSmall], \<lambda>img. [exWide]]
        exTwoInputs [1 / 2, 1 / 4] [exImported, exImported]
      = Inr ([\<lparr>col0 = (Fin 0, Fin 0), col1 = (Fin 8, Fin 0),
               col2 = (Fin 0, Fin 8), col3 = (Fin 8, Fin 8)\<rparr>,
              \<lparr>col0 = (Fin 37, Fin 25), col1 = (Fin 37, Fin 25),
               col2 = (Fin 37, Fin 25), col3 = (Fin 37, Fin 25)\<rparr>], 1)
   \<and> imageStep \<lparr>matchCV = True\<rparr> exTightBounds [\<lambda>img. [exSmall], \<lambda>img. [exWide]]
        exTwoInputs [1 / 2, 1 / 4] 0
      = Inr (\<lparr>col0 = (Fin 0, Fin 0), col1 = (Fin 8, Fin 0),
              col2 = (Fin 0, Fin 8), col3 = (Fin 8, Fin 8)\<rparr>, True)
   \<and> imageStep \<lparr>matchCV = True\<rparr> exTightBounds [\<lambda>img. [exSmall], \<lambda>img. [exWide]]
        exTwoInputs [1 / 2, 1 / 4] 1
      = Inr (\<lparr>col0 = (Fin 37, Fin 25), col1 = (Fin 37, Fin 25),
              col2 = (Fin 37, Fin 25), col3 = (Fin 37, Fin 25)\<rparr>, False)"
  using generateRects_fallback_iff [of 0 "[exImported, exImported]" exTwoInputs "[1 / 2, 1 / 4]"
      "\<lparr>matchCV = True\<rparr>" exTightBounds "[\<lambda>img. [exSmall], \<lambda>img. [exWide]]"]
    generateRects_fallback_iff [of 1 "[exImported, exImported]" exTwoInputs "[1 / 2, 1 / 4]"
      "\<lparr>matchCV = True\<rparr>" exTightBounds "[\<lambda>img. [exSmall], \<lambda>img. [exWide]]"]
  by (simp add: eval_defs)

text \<open>
  C3. When the fallback branch is taken for image \<open>i\<close> and \<^verbatim>\<open>matchCV\<close> is set, the exported
  rectangle is the rectangle of \<^verbatim>\<open>shapeBounds\<close> with every corner scaled by 1.25, then moved by
  (-0.01 times the image width, -0.05 times the image height), then divided by the image's
  scaling factor.
\<close>

theorem fallback_matchCV_affine:
  assumes "i < length rects"
    and "length rects \<le> length (images inputs)"
    and "length rects \<le> length (shapes inputs)"
    and "length rects \<le> length scalings"
    and "scalings ! i \<noteq> 0"
    and "matchCV opts"
    and "\<exists>r. imageStep opts shapeBounds detectors inputs scalings i = Inr (r, False)"
  shows "\<exists>rects' n. generateRects opts shapeBounds detectors inputs scalings rects = Inr (rects', n)
     \<and> rects' ! i =
         (let img = images inputs ! i; b = shapeBounds (shapes inputs ! i); c = scalings ! i;
              tx = - (1 / 100) * of_nat (img_cols img);
              ty = - (1 / 20) * of_nat (img_rows img);
              T = (\<lambda>v. (Fin ((5 / 4 * fst v + tx) / c), Fin ((5 / 4 * snd v + ty) / c)))
          in \<lparr>col0 = T (col0 b), col1 = T (col1 b), col2 = T (col2 b), col3 = T (col3 b)\<rparr>)"
proof -
  from generateRects_steps [OF assms(2-4), of opts shapeBounds detectors]
  obtain rects' n where run: "generateRects opts shapeBounds detectors inputs scalings rects = Inr (rects', n)"
    and each: "\<forall>i<length rects. \<exists>ok.
                 imageStep opts shapeBounds detectors inputs scalings i = Inr (rects' ! i, ok)
                 \<and> chooseRect opts shapeBounds (images inputs ! i) (shapes inputs ! i) (scalings ! i)
                      (concat (map (\<lambda>d. d (images inputs ! i)) detectors)) = Inr (rects' ! i, ok)"
    by blast
  from each assms(1) obtain ok where
    step: "imageStep opts shapeBounds detectors inputs scalings i = Inr (rects' ! i, ok)"
    and ch: "chooseRect opts shapeBounds (images inputs ! i) (shapes inputs ! i) (scalings ! i)
               (concat (map (\<lambda>d. d (images inputs ! i)) detectors)) = Inr (rects' ! i, ok)"
    by blast
  from step assms(7) have "ok = False" by auto
  with chooseRect_result [OF ch]
  have "rects' ! i = rectDiv (fallbackRect opts shapeBounds (images inputs ! i) (shapes inputs ! i))
                       (scalings ! i)"
    by simp
  then show ?thesis
    using run assms(5,6)
    by (simp add: fallbackRect_def affineColwise_def affineApply_def translationTimesScaling_def
            scaleToCV_def txToCV_def tyToCV_def Let_def rectDiv_def vdiv_def fdiv_def)
qed

theorem fallback_matchCV_affine_witness:
  "(0::nat) < length [exImported]
   \<and> length [exImported] \<le> length (images exInputs)
   \<and> length [exImported] \<le> length (shapes exInputs)
   \<and> length [exImported] \<le> length [1 / 2 :: rat]
   \<and> [1 / 2 :: rat] ! 0 \<noteq> 0
   \<and> matchCV \<lparr>matchCV = True\<rparr>
   \<and> imageStep \<lparr>matchCV = True\<rparr> exTightBounds [] exInputs [1 / 2] 0
      = Inr (\<lparr>col0 = (Fin (- (3 / 2)), Fin (- (15 / 2))), col1 = (Fin (7 / 2), Fin (- (15 / 2))),
              col2 = (Fin (- (3 / 2)), Fin (5 / 2)), col3 = (Fin (7 / 2), Fin (5 / 2))\<rparr>, False)
   \<and> generateRects \<lparr>matchCV = True\<rparr> exTightBounds [] exInputs [1 / 2] [exImported]
      = Inr ([\<lparr>col0 = (Fin (- (3 / 2)), Fin (- (15 / 2))), col1 = (Fin (7 / 2), Fin (- (15 / 2))),
               col2 = (Fin (- (3 / 2)), Fin (5 / 2)), col3 = (Fin (7 / 2), Fin (5 / 2))\<rparr>], 0)"
  using fallback_matchCV_affine [of 0 "[exImported]" exInputs "[1 / 2]" "\<lparr>matchCV = True\<rparr>"
      exTightBounds "[]"]
  by (simp add: eval_defs)

text \<open>
  C4. For an image on which some candidate has a positive overlap ratio, the search ends on a
  candidate \<open>b\<close> whose overlap ratio \<open>q\<close> no candidate of any detector exceeds, and every
  candidate before \<open>b\<close> in detector order has a smaller ratio, so that among equal ratios the
  earliest is kept. The candidate is exported, each coefficient divided by the scaling
  factor, exactly when \<open>q\<close> is at least 0.3; below 0.3 the fallback branch is taken.
\<close>

theorem best_candidate_first_maximum:
  assumes "i < length rects"
    and "length rects \<le> length (images inputs)"
    and "length rects \<le> length (shapes inputs)"
    and "length rects \<le> length scalings"
    and "scalings ! i \<noteq> 0"
    and "\<exists>f\<in>set (concat (map (\<lambda>d. d (images inputs ! i)) detectors)).
            fgt (ratioRectShapeOverlap f (shapes inputs ! i)) (Fin 0)"
  shows "\<exists>rects' n b q. generateRects opts shapeBounds detectors inputs scalings rects = Inr (rects', n)
     \<and> (let img = images inputs ! i; s = shapes inputs ! i; c = scalings ! i;
             faces = concat (map (\<lambda>d. d img) detectors);
             quot = (\<lambda>v. (Fin (fst v / c), Fin (snd v / c)))
         in bestLoop faces s 0 (Fin 0, None) = (Fin q, Some b)
            \<and> b < length faces
            \<and> ratioRectShapeOverlap (faces ! b) s = Fin q
            \<and> (\<forall>j<length faces. \<not> fgt (ratioRectShapeOverlap (faces ! j) s) (Fin q))
            \<and> (\<forall>j<b. fgt (Fin q) (ratioRectShapeOverlap (faces ! j) s))
            \<and> (if q < 3 / 10
                then imageStep opts shapeBounds detectors inputs scalings i = Inr (rects' ! i, False)
                else imageStep opts shapeBounds detectors inputs scalings i = Inr (rects' ! i, True)
                     \<and> rects' ! i =
                         \<lparr>col0 = quot (col0 (faces ! b)), col1 = quot (col1 (faces ! b)),
                          col2 = quot (col2 (faces ! b)), col3 = quot (col3 (faces ! b))\<rparr>))"
proof -
  let ?img = "images inputs ! i" and ?s = "shapes inputs ! i" and ?c = "scalings ! i"
  let ?faces = "concat (map (\<lambda>d. d ?img) detectors)"
  from generateRects_steps [OF assms(2-4), of opts shapeBounds detectors]
  obtain rects' n where run: "generateRects opts shapeBounds detectors inputs scalings rects = Inr (rects', n)"
    and each: "\<forall>i<length rects. \<exists>ok.
                 imageStep opts shapeBounds detectors inputs scalings i = Inr (rects' ! i, ok)
                 \<and> chooseRect opts shapeBounds (images inputs ! i) (shapes inputs ! i) (scalings ! i)
                      (concat (map (\<lambda>d. d (images inputs ! i)) detectors)) = Inr (rects' ! i, ok)"
    by blast
  from each assms(1) obtain ok where
    step: "imageStep opts shapeBounds detectors inputs scalings i = Inr (rects' ! i, ok)"
    and ch: "chooseRect opts shapeBounds ?img ?s ?c ?faces = Inr (rects' ! i, ok)"
    by blast
  have ne: "?s \<noteq> []"
  proof
    assume "?s = []"
    then show False using assms(6) by (simp add: ratio_Nil)
  qed
  from assms(6) obtain g where g: "g \<in> set ?faces" "0 < coveredRatio g ?s"
    using ne by (auto simp: ratio_Fin)
  then obtain m where m: "m < length ?faces" "0 < coveredRatio (?faces ! m) ?s"
    by (metis in_set_conv_nth)
  from bestLoop_start [OF ne, of ?faces] m
  obtain k where k: "k < length ?faces"
    "bestLoop ?faces ?s 0 (Fin 0, None) = (Fin (coveredRatio (?faces ! k) ?s), Some k)"
    "\<forall>i<k. coveredRatio (?faces ! i) ?s < coveredRatio (?faces ! k) ?s"
    "\<forall>i<length ?faces. coveredRatio (?faces ! i) ?s \<le> coveredRatio (?faces ! k) ?s"
    by force
  let ?q = "coveredRatio (?faces ! k) ?s"
  have r: "ratioRectShapeOverlap (?faces ! k) ?s = Fin ?q" using ne by (simp add: ratio_Fin)
  have mx: "\<forall>j<length ?faces. \<not> fgt (ratioRectShapeOverlap (?faces ! j) ?s) (Fin ?q)"
    using k(4) ne by (simp add: ratio_Fin not_less)
  have fst: "\<forall>j<k. fgt (Fin ?q) (ratioRectShapeOverlap (?faces ! j) ?s)"
    using k(3) ne by (simp add: ratio_Fin)
  have dec: "if ?q < 3 / 10
             then imageStep opts shapeBounds detectors inputs scalings i = Inr (rects' ! i, False)
             else imageStep opts shapeBounds detectors inputs scalings i = Inr (rects' ! i, True)
                  \<and> rects' ! i =
                      \<lparr>col0 = (Fin (fst (col0 (?faces ! k)) / ?c), Fin (snd (col0 (?faces ! k)) / ?c)),
                       col1 = (Fin (fst (col1 (?faces ! k)) / ?c), Fin (snd (col1 (?faces ! k)) / ?c)),
                       col2 = (Fin (fst (col2 (?faces ! k)) / ?c), Fin (snd (col2 (?faces ! k)) / ?c)),
                       col3 = (Fin (fst (col3 (?faces ! k)) / ?c), Fin (snd (col3 (?faces ! k)) / ?c))\<rparr>"
  proof (cases "?q < 3 / 10")
    case True
    then have "chooseRect opts shapeBounds ?img ?s ?c ?faces
                 = Inr (rectDiv (fallbackRect opts shapeBounds ?img ?s) ?c, False)"
      using k(2) by (simp add: chooseRect_def flt_def)
    with ch have "ok = False" by simp
    then show ?thesis using True step by simp
  next
    case False
    then have "chooseRect opts shapeBounds ?img ?s ?c ?faces = Inr (rectDiv (?faces ! k) ?c, True)"
      using k(1,2) by (simp add: chooseRect_def flt_def elemAt_def)
    with ch have "ok = True" "rects' ! i = rectDiv (?faces ! k) ?c" by simp_all
    then show ?thesis using False step assms(5) by (simp add: rectDiv_def vdiv_def fdiv_def)
  qed
  show ?thesis
    apply (rule exI [of _ rects'], rule exI [of _ n], rule exI [of _ k], rule exI [of _ ?q])
    unfolding Let_def fst_conv snd_conv
    apply (insert run k(1,2) r mx fst dec)
    apply (intro conjI; assumption)
    done
qed

theorem best_candidate_first_maximum_witness:
  "(0::nat) < length [exImported]
   \<and> length [exImported] \<le> length (images exInputs)
   \<and> length [exImported] \<le> length (shapes exInputs)
   \<and> length [exImported] \<le> length [1 / 4 :: rat]
   \<and> [1 / 4 :: rat] ! 0 \<noteq> 0
   \<and> fgt (ratioRectShapeOverlap exWide exShape) (Fin 0)
   \<and> bestLoop [exSmall, exWide, exWide] exShape 0 (Fin 0, None) = (Fin (2 / 3), Some 1)
   \<and> generateRects \<lparr>matchCV = False\<rparr> exTightBounds [\<lambda>img. [exSmall, exWide], \<lambda>img. [exWide]]
        exInputs [1 / 4] [exImported]
      = Inr ([\<lparr>col0 = (Fin 0, Fin 0), col1 = (Fin 16, Fin 0),
               col2 = (Fin 0, Fin 16), col3 = (Fin 16, Fin 16)\<rparr>], 1)"
  using best_candidate_first_maximum [of 0 "[exImported]" exInputs "[1 / 4]"
      "[\<lambda>img. [exSmall, exWide], \<lambda>img. [exWide]]" "\<lparr>matchCV = False\<rparr>" exTightBounds]
  by (simp add: eval_defs)

text \<open>
  C10. Every exported rectangle is a rectangle the loop chose, which is the fallback
  rectangle (the corners of \<^verbatim>\<open>shapeBounds\<close>, moved when \<^verbatim>\<open>matchCV\<close> is set) or a candidate of a
  detector, with each of its eight coefficients divided by the scaling factor \<^verbatim>\<open>scalings[i]\<close>
  of its image; with a zero factor the quotient is NaN or an infinity.
\<close>

theorem exported_rects_divided_by_scaling:
  assumes "length rects \<le> length (images inputs)"
    and "length rects \<le> length (shapes inputs)"
    and "length rects \<le> length scalings"
  shows "\<exists>rects' n. generateRects opts shapeBounds detectors inputs scalings rects = Inr (rects', n)
     \<and> length rects' = length rects
     \<and> (\<forall>i<length rects. \<exists>r.
           (let img = images inputs ! i; s = shapes inputs ! i; c = scalings ! i;
                tight = shapeBounds s;
                toCV = (\<lambda>v. (5 / 4 * fst v + - (1 / 100) * of_nat (img_cols img),
                             5 / 4 * snd v + - (1 / 20) * of_nat (img_rows img)));
                quot = (\<lambda>x. if c = 0 then (if x = 0 then NaN else if 0 < x then PInf else NInf)
                             else Fin (x / c))
            in (r = (if matchCV opts
                     then \<lparr>col0 = toCV (col0 tight), col1 = toCV (col1 tight),
                           col2 = toCV (col2 tight), col3 = toCV (col3 tight)\<rparr>
                     else tight)
                \<or> r \<in> set (concat (map (\<lambda>d. d img) detectors)))
               \<and> rects' ! i =
                   \<lparr>col0 = (quot (fst (col0 r)), quot (snd (col0 r))),
                    col1 = (quot (fst (col1 r)), quot (snd (col1 r))),
                    col2 = (quot (fst (col2 r)), quot (snd (col2 r))),
                    col3 = (quot (fst (col3 r)), quot (snd (col3 r)))\<rparr>))"
proof -
  from generateRects_steps [OF assms, of opts shapeBounds detectors]
  obtain rects' n where run: "generateRects opts shapeBounds detectors inputs scalings rects = Inr (rects', n)"
    and len: "length rects' = length rects"
    and each: "\<forall>i<length rects. \<exists>ok.
                 imageStep opts shapeBounds detectors inputs scalings i = Inr (rects' ! i, ok)
                 \<and> chooseRect opts shapeBounds (images inputs ! i) (shapes inputs ! i) (scalings ! i)
                      (concat (map (\<lambda>d. d (images inputs ! i)) detectors)) = Inr (rects' ! i, ok)"
    by blast
  have coeffs: "rectDiv r c =
      \<lparr>col0 = ((if c = 0 then (if fst (col0 r) = 0 then NaN else if 0 < fst (col0 r) then PInf else NInf)
                 else Fin (fst (col0 r) / c)),
                (if c = 0 then (if snd (col0 r) = 0 then NaN else if 0 < snd (col0 r) then PInf else NInf)
                 else Fin (snd (col0 r) / c))),
       col1 = ((if c = 0 then (if fst (col1 r) = 0 then NaN else if 0 < fst (col1 r) then PInf else NInf)
                 else Fin (fst (col1 r) / c)),
                (if c = 0 then (if snd (col1 r) = 0 then NaN else if 0 < snd (col1 r) then PInf else NInf)
                 else Fin (snd (col1 r) / c))),
       col2 = ((if c = 0 then (if fst (col2 r) = 0 then NaN else if 0 < fst (col2 r) then PInf else NInf)
                 else Fin (fst (col2 r) / c)),
                (if c = 0 then (if snd (col2 r) = 0 then NaN else if 0 < snd (col2 r) then PInf else NInf)
                 else Fin (snd (col2 r) / c))),
       col3 = ((if c = 0 then (if fst (col3 r) = 0 then NaN else if 0 < fst (col3 r) then PInf else NInf)
                 else Fin (fst (col3 r) / c)),
                (if c = 0 then (if snd (col3 r) = 0 then NaN else if 0 < snd (col3 r) then PInf else NInf)
                 else Fin (snd (col3 r) / c)))\<rparr>" for r c
    by (simp only: rectDiv_def vdiv_def fdiv_def)
  have corners:
  "fallbackRect opts shapeBounds img s =
     (if matchCV opts
      then \<lparr>col0 = (5 / 4 * fst (col0 (shapeBounds s)) + - (1 / 100) * of_nat (img_cols img),
                    5 / 4 * snd (col0 (shapeBounds s)) + - (1 / 20) * of_nat (img_rows img)),
            col1 = (5 / 4 * fst (col1 (shapeBounds s)) + - (1 / 100) * of_nat (img_cols img),
                    5 / 4 * snd (col1 (shapeBounds s)) + - (1 / 20) * of_nat (img_rows img)),
            col2 = (5 / 4 * fst (col2 (shapeBounds s)) + - (1 / 100) * of_nat (img_cols img),
                    5 / 4 * snd (col2 (shapeBounds s)) + - (1 / 20) * of_nat (img_rows img)),
            col3 = (5 / 4 * fst (col3 (shapeBounds s)) + - (1 / 100) * of_nat (img_cols img),
                    5 / 4 * snd (col3 (shapeBounds s)) + - (1 / 20) * of_nat (img_rows img))\<rparr>
      else shapeBounds s)" for img s
    by (simp add: fallbackRect_def affineColwise_def affineApply_def translationTimesScaling_def
            scaleToCV_def txToCV_def tyToCV_def Let_def)
  have "\<forall>i<length rects. \<exists>r.
           (r = fallbackRect opts shapeBounds (images inputs ! i) (shapes inputs ! i)
                \<or> r \<in> set (concat (map (\<lambda>d. d (images inputs ! i)) detectors)))
               \<and> rects' ! i = rectDiv r (scalings ! i)"
  proof (intro allI impI)
    fix i assume "i < length rects"
    with each obtain ok where
      ch: "chooseRect opts shapeBounds (images inputs ! i) (shapes inputs ! i) (scalings ! i)
             (concat (map (\<lambda>d. d (images inputs ! i)) detectors)) = Inr (rects' ! i, ok)"
      by blast
    from chooseRect_result [OF ch]
    show "\<exists>r. (r = fallbackRect opts shapeBounds (images inputs ! i) (shapes inputs ! i)
                \<or> r \<in> set (concat (map (\<lambda>d. d (images inputs ! i)) detectors)))
               \<and> rects' ! i = rectDiv r (scalings ! i)"
      by (cases ok) auto
  qed
  then have "\<forall>i<length rects. \<exists>r.
           (let img = images inputs ! i; s = shapes inputs ! i; c = scalings ! i;
                tight = shapeBounds s;
                toCV = (\<lambda>v. (5 / 4 * fst v + - (1 / 100) * of_nat (img_cols img),
                             5 / 4 * snd v + - (1 / 20) * of_nat (img_rows img)));
                quot = (\<lambda>x. if c = 0 then (if x = 0 then NaN else if 0 < x then PInf else NInf)
                             else Fin (x / c))
            in (r = (if matchCV opts
                     then \<lparr>col0 = toCV (col0 tight), col1 = toCV (col1 tight),
                           col2 = toCV (col2 tight), col3 = toCV (col3 tight)\<rparr>
                     else tight)
                \<or> r \<in> set (concat (map (\<lambda>d. d img) detectors)))
               \<and> rects' ! i =
                   \<lparr>col0 = (quot (fst (col0 r)), quot (snd (col0 r))),
                    col1 = (quot (fst (col1 r)), quot (snd (col1 r))),
                    col2 = (quot (fst (col2 r)), quot (snd (col2 r))),
                    col3 = (quot (fst (col3 r)), quot (snd (col3 r)))\<rparr>)"
    unfolding Let_def corners coeffs .
  then show ?thesis using run len by blast
qed

theorem exported_rects_divided_by_scaling_witness:
  "length [exImported, exImported] \<le> length (images exTwoInputs)
   \<and> length [exImported, exImported] \<le> length (shapes exTwoInputs)
   \<and> length [exImported, exImported] \<le> length [0 :: rat, 1 / 4]
   \<and> generateRects \<lparr>matchCV = False\<rparr> exTightBounds [\<lambda>img. [exWide]]
        exTwoInputs [0, 1 / 4] [exImported, exImported]
      = Inr ([\<lparr>col0 = (NaN, NaN), col1 = (PInf, NaN), col2 = (NaN, PInf), col3 = (PInf, PInf)\<rparr>,
              \<lparr>col0 = (Fin 36, Fin 36), col1 = (Fin 36, Fin 36),
               col2 = (Fin 36, Fin 36), col3 = (Fin 36, Fin 36)\<rparr>], 1)"
  using exported_rects_divided_by_scaling [of "[exImported, exImported]" exTwoInputs "[0, 1 / 4]"
      "\<lparr>matchCV = False\<rparr>" exTightBounds "[\<lambda>img. [exWide]]"]
  by (simp add: eval_defs)

section \<open>Sample generation and partition\<close>

lemma drawOther_other:
  assumes "2 \<le> M" "drawOther next M i g = (j, g')"
  shows "j < M \<and> j \<noteq> i"
proof -
  obtain r g1 where n: "next g = (r, g1)" by (cases "next g")
  define q where "q = r mod (M - 1)"
  have q: "q < M - 1" unfolding q_def using assms(1) by simp
  have "j = (if q < i then q else q + 1)"
    using assms(2) n by (auto simp: drawOther_def Let_def q_def split: if_splits)
  then show ?thesis using q by (auto split: if_splits)
qed

lemma initializationsOf_props:
  assumes "2 \<le> length shps" "initializationsOf next toFrame shps i k g = (smps, g')"
  shows "length smps = k
       \<and> (\<forall>smp\<in>set smps. idx smp = int i
             \<and> (\<exists>j<length shps. j \<noteq> i \<and> estimate smp = toFrame i (shps ! j)))"
  using assms(2)
proof (induction k arbitrary: g smps g')
  case 0
  then show ?case by simp
next
  case (Suc k)
  obtain j g1 where d: "drawOther next (length shps) i g = (j, g1)"
    by (cases "drawOther next (length shps) i g")
  obtain rest g2 where r: "initializationsOf next toFrame shps i k g1 = (rest, g2)"
    by (cases "initializationsOf next toFrame shps i k g1")
  from Suc.prems d r have smps: "smps = \<lparr>idx = int i, estimate = toFrame i (shps ! j)\<rparr> # rest"
    by simp
  from drawOther_other [OF assms(1) d] have j: "j < length shps" "j \<noteq> i" by simp_all
  from Suc.IH [OF r] j show ?case unfolding smps by auto
qed

lemma samplesOfImages_props:
  assumes "2 \<le> length shps" "samplesOfImages next toFrame shps k is g = (smps, g')"
  shows "length smps = length is * k
       \<and> (\<forall>smp\<in>set smps. \<exists>i\<in>set is. idx smp = int i
             \<and> (\<exists>j<length shps. j \<noteq> i \<and> estimate smp = toFrame i (shps ! j)))"
  using assms(2)
proof (induction "is" arbitrary: g smps g')
  case Nil
  then show ?case by simp
next
  case (Cons i "is")
  obtain mine g1 where a: "initializationsOf next toFrame shps i k g = (mine, g1)"
    by (cases "initializationsOf next toFrame shps i k g")
  obtain rest g2 where r: "samplesOfImages next toFrame shps k is g1 = (rest, g2)"
    by (cases "samplesOfImages next toFrame shps k is g1")
  from Cons.prems a r have smps: "smps = mine @ rest" by simp
  from initializationsOf_props [OF assms(1) a] Cons.IH [OF r]
  show ?case unfolding smps by auto
qed

text \<open>
  C7. On \<open>M\<close> ground-truth shapes and with \<open>k\<close> initializations per image, the modelled
  \<^verbatim>\<open>createTrainingSamplesKazemi\<close> returns exactly \<open>M * k\<close> samples; the image index of each
  lies in \<open>[0, M)\<close> and its estimate is made from a ground-truth shape of another index.
  This is for \<open>k \<ge> 0\<close> and \<open>M \<noteq> 1\<close>: a single shape has no other shape.
\<close>

theorem createTrainingSamplesKazemi_samples:
  assumes "0 \<le> k" and "length shps \<noteq> 1"
  shows "\<exists>smps rnd'. createTrainingSamplesKazemi next toFrame shps samples rnd k = Inr (smps, rnd')
     \<and> int (length smps) = int (length shps) * k
     \<and> (\<forall>smp\<in>set smps. 0 \<le> idx smp \<and> idx smp < int (length shps)
           \<and> (\<exists>j<length shps. int j \<noteq> idx smp
                  \<and> estimate smp = toFrame (nat (idx smp)) (shps ! j)))"
proof (cases "shps = []")
  case True
  then show ?thesis by (simp add: createTrainingSamplesKazemi_def)
next
  case False
  then have two: "2 \<le> length shps" using assms(2) by (cases shps) (auto simp: Suc_le_eq)
  obtain smps rnd' where
    s: "samplesOfImages next toFrame shps (nat k) [0..<length shps] rnd = (smps, rnd')"
    by (cases "samplesOfImages next toFrame shps (nat k) [0..<length shps] rnd")
  have run: "createTrainingSamplesKazemi next toFrame shps samples rnd k = Inr (smps, rnd')"
    using s assms(2) by (simp add: createTrainingSamplesKazemi_def)
  from samplesOfImages_props [OF two s]
  have len: "length smps = length shps * nat k"
    and each: "\<forall>smp\<in>set smps. \<exists>i\<in>set [0..<length shps]. idx smp = int i
             \<and> (\<exists>j<length shps. j \<noteq> i \<and> estimate smp = toFrame i (shps ! j))"
    by simp_all
  have l: "int (length smps) = int (length shps) * k" using len assms(1) by simp
  have e: "\<forall>smp\<in>set smps. 0 \<le> idx smp \<and> idx smp < int (length shps)
           \<and> (\<exists>j<length shps. int j \<noteq> idx smp
                  \<and> estimate smp = toFrame (nat (idx smp)) (shps ! j))"
  proof
    fix smp assume "smp \<in> set smps"
    with each obtain i j where "i < length shps" "idx smp = int i" "j < length shps" "j \<noteq> i"
      "estimate smp = toFrame i (shps ! j)" by auto
    then show "0 \<le> idx smp \<and> idx smp < int (length shps)
           \<and> (\<exists>j<length shps. int j \<noteq> idx smp
                  \<and> estimate smp = toFrame (nat (idx smp)) (shps ! j))"
      by auto
  qed
  show ?thesis using run l e by blast
qed

theorem createTrainingSamplesKazemi_samples_witness:
  "(0::int) \<le> 2 \<and> length [exShape, [(0, 0)], [(7, 7)]] \<noteq> 1
   \<and> createTrainingSamplesKazemi exNext (\<lambda>i s. s) [exShape, [(0, 0)], [(7, 7)]] [] 0 2
      = Inr ([\<lparr>idx = 0, estimate = [(0, 0)]\<rparr>, \<lparr>idx = 0, estimate = [(7, 7)]\<rparr>,
              \<lparr>idx = 1, estimate = exShape\<rparr>, \<lparr>idx = 1, estimate = [(7, 7)]\<rparr>,
              \<lparr>idx = 2, estimate = exShape\<rparr>, \<lparr>idx = 2, estimate = [(0, 0)]\<rparr>], 18)"
proof -
  have run: "createTrainingSamplesKazemi exNext (\<lambda>i s. s) [exShape, [(0, 0)], [(7, 7)]] [] 0 2
      = Inr ([\<lparr>idx = 0, estimate = [(0, 0)]\<rparr>, \<lparr>idx = 0, estimate = [(7, 7)]\<rparr>,
              \<lparr>idx = 1, estimate = exShape\<rparr>, \<lparr>idx = 1, estimate = [(7, 7)]\<rparr>,
              \<lparr>idx = 2, estimate = exShape\<rparr>, \<lparr>idx = 2, estimate = [(0, 0)]\<rparr>], 18)"
    by code_simp
  from createTrainingSamplesKazemi_samples
         [of 2 "[exShape, [(0, 0)], [(7, 7)]]" exNext "\<lambda>i s. s" "[]" 0] run
  show ?thesis by simp
qed

lemma shuffled_mset: "shuffled next xs g = (ys, g') \<Longrightarrow> mset ys = mset xs"
proof (induction xs arbitrary: ys g')
  case Nil
  then show ?case by simp
next
  case (Cons x xs)
  obtain zs g1 where z: "shuffled next xs g = (zs, g1)" by (cases "shuffled next xs g")
  obtain r g2 where n: "next g1 = (r, g2)" by (cases "next g1")
  from Cons.prems z n have ys: "ys = take (r mod (length zs + 1)) zs @ x # drop (r mod (length zs + 1)) zs"
    by (simp add: Let_def)
  have "mset (take (r mod (length zs + 1)) zs) + mset (drop (r mod (length zs + 1)) zs) = mset zs"
    by (metis append_take_drop_id mset_append)
  then show ?case using Cons.IH [OF z] ys by (simp add: add.commute add.left_commute)
qed

lemma round_tenth_le: "nat (round (of_nat n * (1 / 10) :: rat)) \<le> n"
proof -
  have "(of_nat n * (1 / 10) :: rat) \<le> of_nat n" by (simp add: field_simps)
  then have "round (of_nat n * (1 / 10) :: rat) \<le> round (of_nat n :: rat)"
    by (rule round_mono)
  then show ?thesis by simp
qed

text \<open>
  C9. A call of \<^verbatim>\<open>createTrainingSamplesKazemi\<close> or of
  \<^verbatim>\<open>createTrainingSamplesThroughLinearCombinations\<close> that leaves out
  \<^verbatim>\<open>numInitializationsPerImage\<close> runs the body with 20, whatever the body is; a call that gives
  the argument runs the body with it.
\<close>

theorem numInitializationsPerImage_default:
  "call_createTrainingSamplesKazemi body shps samples rnd None = body shps samples rnd 20
   \<and> call_createTrainingSamplesThroughLinearCombinations body' shps' samples' rnd' None
       = body' shps' samples' rnd' 20
   \<and> call_createTrainingSamplesKazemi body shps samples rnd (Some k) = body shps samples rnd k
   \<and> call_createTrainingSamplesThroughLinearCombinations body' shps' samples' rnd' (Some k')
       = body' shps' samples' rnd' k'"
  by (simp add: call_createTrainingSamplesKazemi_def
        call_createTrainingSamplesThroughLinearCombinations_def argOrDefault_def)

text \<open>
  C8. A call of \<^verbatim>\<open>randomPartitionTrainingSamples\<close> that leaves out \<^verbatim>\<open>validatePercent\<close> runs
  the body with 0.1, whatever the body is; with the body modelled from the specification,
  \<open>round (N / 10)\<close> of the \<open>N\<close> samples are held out for validation, the others stay for
  training, and no sample is lost or made up.
\<close>

theorem validatePercent_default:
  "call_randomPartitionTrainingSamples body train validate rnd None
     = body train validate rnd (1 / 10)
   \<and> (case call_randomPartitionTrainingSamples (randomPartitionTrainingSamples next)
              train validate rnd None of
         (train', validate', rnd') \<Rightarrow>
           int (length validate') = round (of_nat (length train) * (1 / 10) :: rat)
           \<and> length train' + length validate' = length train
           \<and> mset train' + mset validate' = mset train)"
proof -
  obtain xs g where s: "shuffled next train rnd = (xs, g)" by (cases "shuffled next train rnd")
  from shuffled_mset [OF s] have m: "mset xs = mset train" .
  then have len: "length xs = length train" by (metis size_mset)
  let ?n = "nat (round (of_nat (length train) * (1 / 10) :: rat))"
  have le: "?n \<le> length xs" using round_tenth_le [of "length train"] len by simp
  have nn: "0 \<le> round (of_nat (length train) * (1 / 10) :: rat)"
  proof -
    have "round (0::rat) \<le> round (of_nat (length train) * (1 / 10) :: rat)"
      by (rule round_mono) simp
    then show ?thesis by simp
  qed
  have a: "int (length (take ?n xs)) = round (of_nat (length train) * (1 / 10) :: rat)"
    using le nn by simp
  have b: "length (drop ?n xs) + length (take ?n xs) = length train"
    using le len by simp
  have c: "mset (drop ?n xs) + mset (take ?n xs) = mset train"
    using m by (metis append_take_drop_id mset_append add.commute)
  show ?thesis
    using s a b c
    by (simp add: call_randomPartitionTrainingSamples_def argOrDefault_def
          randomPartitionTrainingSamples_def Let_def)
qed

end
